theory Spec2Isabelle
  imports Complex_Main "HOL-Library.AList"
begin

section \<open>Python values shared by the three modules\<close>

text \<open>
  Exceptions the modelled code can raise. A Python dict is an association list with
  distinct keys in insertion order: \<open>d[k] = v\<close> is \<open>AList.update\<close> (an existing key keeps
  its place, a new key goes to the end), \<open>del d[k]\<close> is \<open>AList.delete\<close>.
\<close>

datatype py_error = KeyError | ValueError | IndexError

text \<open>\<open>min(xs)\<close> and \<open>max(xs)\<close> of Python: \<open>ValueError\<close> on an empty sequence.\<close>

fun py_min :: "('a::linorder) list \<Rightarrow> py_error + 'a" where
  "py_min [] = Inl ValueError"
| "py_min (x # xs) = Inr (fold min xs x)"

fun py_max :: "('a::linorder) list \<Rightarrow> py_error + 'a" where
  "py_max [] = Inl ValueError"
| "py_max (x # xs) = Inr (fold max xs x)"

text \<open>The slice \<open>xs[-n:]\<close>: the last \<open>n\<close> elements for \<open>n > 0\<close>, all of \<open>xs\<close> for
  \<open>n = 0\<close>, and \<open>xs[k:]\<close> for \<open>n = -k < 0\<close>.\<close>

definition py_last_n :: "int \<Rightarrow> 'a list \<Rightarrow> 'a list" where
  "py_last_n n xs = (if n \<le> 0 then drop (nat (- n)) xs else drop (length xs - nat n) xs)"

section \<open>live\_monitor.py: LiveF1Monitor\<close>

record driver_timing =
  driver :: string
  position :: nat
  last_lap_time :: string
  best_lap_time :: string
  gap_to_leader :: string
  tire_age :: nat

record weather_sample =
  air_temperature :: real
  track_temperature :: real
  humidity :: real
  wind_speed :: real
  rainfall :: real

text \<open>The dict produced by \<open>_fetch_live_data\<close>; \<open>'k\<close> is the type of the timestamp key
  (an ISO-8601 string in the simulator, compared by \<open>min\<close>, \<open>max\<close> and \<open>sorted\<close>).\<close>

record 'k snapshot =
  timestamp :: 'k
  drivers :: "driver_timing list"
  weather :: weather_sample
  track_status :: string

text \<open>\<open>self.session_data\<close> once \<open>start_monitoring\<close> has filled it.\<close>

record 'k session =
  session_info :: string
  start_time :: real
  timing_data :: "('k \<times> driver_timing list) list"
  weather_data :: "('k \<times> weather_sample) list"
  session_track_status :: string

text \<open>The monitor object. \<open>__init__\<close> sets \<open>session_data = {}\<close>, modelled by \<open>None\<close>:
  every read of \<open>session_data['timing_data']\<close> then raises \<open>KeyError\<close>.\<close>

record ('k, 'c) monitor =
  is_monitoring :: bool
  session_data :: "'k session option"
  callbacks :: "'c list"
  update_interval :: nat

definition init_monitor :: "('k, 'c) monitor" where
  "init_monitor = \<lparr>is_monitoring = False, session_data = None, callbacks = [], update_interval = 5\<rparr>"

definition add_callback :: "'c \<Rightarrow> ('k, 'c) monitor \<Rightarrow> ('k, 'c) monitor" where
  "add_callback cb m = m\<lparr>callbacks := callbacks m @ [cb]\<rparr>"

definition remove_callback :: "'c \<Rightarrow> ('k, 'c) monitor \<Rightarrow> ('k, 'c) monitor" where
  "remove_callback cb m = (if cb \<in> set (callbacks m) then m\<lparr>callbacks := remove1 cb (callbacks m)\<rparr> else m)"

text \<open>The assignments of \<open>start_monitoring\<close> before its polling loop (lines 37 to 45);
  \<open>now\<close> is the value of \<open>datetime.now()\<close>. There is no test of \<open>is_monitoring\<close>.\<close>

definition start_monitoring_begin :: "string \<Rightarrow> real \<Rightarrow> ('k, 'c) monitor \<Rightarrow> ('k, 'c) monitor" where
  "start_monitoring_begin info now m =
     m\<lparr>is_monitoring := True,
       session_data := Some \<lparr>session_info = info, start_time = now, timing_data = [],
                             weather_data = [], session_track_status = ''GREEN''\<rparr>\<rparr>"

definition stop_monitoring :: "('k, 'c) monitor \<Rightarrow> ('k, 'c) monitor" where
  "stop_monitoring m = m\<lparr>is_monitoring := False\<rparr>"

text \<open>\<open>del d[k]\<close>: \<open>KeyError\<close> when the key is missing.\<close>

definition py_del :: "'k \<Rightarrow> ('k \<times> 'v) list \<Rightarrow> py_error + ('k \<times> 'v) list" where
  "py_del k d = (if k \<in> set (map fst d) then Inr (AList.delete k d) else Inl KeyError)"

text \<open>\<open>_process_live_data\<close>: store the snapshot under its timestamp in both histories,
  then, when the timing history holds more than 100 entries, delete its smallest key
  from both.\<close>

definition process_live_data ::
  "('k::linorder) snapshot \<Rightarrow> ('k, 'c) monitor \<Rightarrow> py_error + ('k, 'c) monitor" where
  "process_live_data data m =
     (case session_data m of
        None \<Rightarrow> Inl KeyError
      | Some sd \<Rightarrow>
          let ts = timestamp data;
              td = AList.update ts (drivers data) (timing_data sd);
              wd = AList.update ts (weather data) (weather_data sd);
              sd1 = sd\<lparr>timing_data := td, weather_data := wd,
                       session_track_status := track_status data\<rparr>
          in if length td > 100 then
               (case py_min (map fst td) of
                  Inl e \<Rightarrow> Inl e
                | Inr oldest_key \<Rightarrow>
                    (case py_del oldest_key td of
                       Inl e \<Rightarrow> Inl e
                     | Inr td' \<Rightarrow>
                         (case py_del oldest_key wd of
                            Inl e \<Rightarrow> Inl e
                          | Inr wd' \<Rightarrow>
                              Inr (m\<lparr>session_data :=
                                       Some (sd1\<lparr>timing_data := td', weather_data := wd'\<rparr>)\<rparr>))))
             else Inr (m\<lparr>session_data := Some sd1\<rparr>))"

text \<open>One iteration of the polling loop for a given result of \<open>_fetch_live_data\<close>
  (\<open>None\<close> when the fetch failed): a fetched snapshot is processed; the callbacks that
  are notified afterwards do not touch the monitor. \<open>process_all\<close> is the effect of
  the successive iterations, stopping at the first exception as the loop does.\<close>

definition poll_tick ::
  "('k::linorder) snapshot option \<Rightarrow> ('k, 'c) monitor \<Rightarrow> py_error + ('k, 'c) monitor" where
  "poll_tick live_data m = (case live_data of None \<Rightarrow> Inr m | Some d \<Rightarrow> process_live_data d m)"

fun process_all ::
  "('k::linorder) snapshot list \<Rightarrow> ('k, 'c) monitor \<Rightarrow> py_error + ('k, 'c) monitor" where
  "process_all [] m = Inr m"
| "process_all (d # ds) m =
     (case process_live_data d m of Inl e \<Rightarrow> Inl e | Inr m' \<Rightarrow> process_all ds m')"

fun poll_all ::
  "('k::linorder) snapshot option list \<Rightarrow> ('k, 'c) monitor \<Rightarrow> py_error + ('k, 'c) monitor" where
  "poll_all [] m = Inr m"
| "poll_all (r # rs) m =
     (case poll_tick r m of Inl e \<Rightarrow> Inl e | Inr m' \<Rightarrow> poll_all rs m')"

subsection \<open>Queries\<close>

definition get_current_standings :: "('k::linorder, 'c) monitor \<Rightarrow> py_error + driver_timing list" where
  "get_current_standings m =
     (case session_data m of
        None \<Rightarrow> Inl KeyError
      | Some sd \<Rightarrow>
          if timing_data sd = [] then Inr []
          else (case py_max (map fst (timing_data sd)) of
                  Inl e \<Rightarrow> Inl e
                | Inr latest_timestamp \<Rightarrow>
                    (case map_of (timing_data sd) latest_timestamp of
                       None \<Rightarrow> Inl KeyError
                     | Some ds \<Rightarrow> Inr ds)))"

record 'k driver_history =
  dh_timestamps :: "'k list"
  dh_lap_times :: "string list"
  dh_positions :: "nat list"
  dh_gaps :: "string list"
  dh_tire_ages :: "nat list"

text \<open>The inner loop of \<open>get_driver_history\<close>: the first entry of the driver, if any.\<close>

definition driver_rows ::
  "string \<Rightarrow> ('k \<times> driver_timing list) list \<Rightarrow> 'k list \<Rightarrow> ('k \<times> driver_timing) list" where
  "driver_rows d td tss =
     concat (map (\<lambda>ts. case map_of td ts of
                          None \<Rightarrow> []
                        | Some rows \<Rightarrow> (case find (\<lambda>r. driver r = d) rows of
                                          None \<Rightarrow> []
                                        | Some r \<Rightarrow> [(ts, r)])) tss)"

definition get_driver_history ::
  "string \<Rightarrow> int \<Rightarrow> ('k::linorder, 'c) monitor \<Rightarrow> py_error + 'k driver_history" where
  "get_driver_history d data_points m =
     (case session_data m of
        None \<Rightarrow> Inl KeyError
      | Some sd \<Rightarrow>
          let timestamps = py_last_n data_points (sort (map fst (timing_data sd)));
              rows = driver_rows d (timing_data sd) timestamps
          in Inr \<lparr>dh_timestamps = map fst rows,
                  dh_lap_times = map (last_lap_time \<circ> snd) rows,
                  dh_positions = map (position \<circ> snd) rows,
                  dh_gaps = map (gap_to_leader \<circ> snd) rows,
                  dh_tire_ages = map (tire_age \<circ> snd) rows\<rparr>)"

record 'k weather_history =
  wh_timestamps :: "'k list"
  wh_air_temp :: "real list"
  wh_track_temp :: "real list"
  wh_humidity :: "real list"
  wh_wind_speed :: "real list"
  wh_rainfall :: "real list"

definition get_weather_history ::
  "int \<Rightarrow> ('k::linorder, 'c) monitor \<Rightarrow> py_error + 'k weather_history" where
  "get_weather_history data_points m =
     (case session_data m of
        None \<Rightarrow> Inl KeyError
      | Some sd \<Rightarrow>
          let timestamps = py_last_n data_points (sort (map fst (weather_data sd)));
              rows = concat (map (\<lambda>ts. case map_of (weather_data sd) ts of
                                          None \<Rightarrow> [] | Some w \<Rightarrow> [(ts, w)]) timestamps)
          in if length rows < length timestamps then Inl KeyError
             else Inr \<lparr>wh_timestamps = map fst rows,
                       wh_air_temp = map (air_temperature \<circ> snd) rows,
                       wh_track_temp = map (track_temperature \<circ> snd) rows,
                       wh_humidity = map (humidity \<circ> snd) rows,
                       wh_wind_speed = map (wind_speed \<circ> snd) rows,
                       wh_rainfall = map (rainfall \<circ> snd) rows\<rparr>)"

text \<open>The statistics dict; \<open>None\<close> is the empty dict returned when the timing history is
  empty. \<open>fastest_lap\<close> is the \<open>min\<close> of the \<open>best_lap_time\<close> strings, left as the list
  it is taken over.\<close>

record session_stats =
  session_duration :: real
  total_updates :: nat
  current_leader :: "string option"
  best_lap_times :: "string list"
  total_drivers :: nat

definition get_session_statistics ::
  "real \<Rightarrow> ('k::linorder, 'c) monitor \<Rightarrow> py_error + session_stats option" where
  "get_session_statistics now m =
     (case session_data m of
        None \<Rightarrow> Inl KeyError
      | Some sd \<Rightarrow>
          if timing_data sd = [] then Inr None
          else (case get_current_standings m of
                  Inl e \<Rightarrow> Inl e
                | Inr latest_data \<Rightarrow>
                    Inr (Some \<lparr>session_duration = now - start_time sd,
                               total_updates = length (timing_data sd),
                               current_leader = (case latest_data of [] \<Rightarrow> None | r # _ \<Rightarrow> Some (driver r)),
                               best_lap_times = map best_lap_time latest_data,
                               total_drivers = length latest_data\<rparr>)))"

text \<open>The effect of one \<open>_process_live_data\<close> on the key list of a history: the
  timestamp is appended unless it is already a key, and beyond 100 keys the smallest is
  removed.\<close>

definition keys_after_insert :: "('k::linorder) \<Rightarrow> 'k list \<Rightarrow> 'k list" where
  "keys_after_insert ts ks =
     (let ks1 = (if ts \<in> set ks then ks else ks @ [ts])
      in if length ks1 > 100 then removeAll (Min (set ks1)) ks1 else ks1)"

text \<open>What a history holds after the snapshots \<open>ds\<close> arrived with increasing
  timestamps: the last 100 of them, each under its timestamp.\<close>

definition retained :: "('k snapshot \<Rightarrow> 'v) \<Rightarrow> 'k snapshot list \<Rightarrow> ('k \<times> 'v) list" where
  "retained f ds = drop (length ds - 100) (map (\<lambda>d. (timestamp d, f d)) ds)"

section \<open>advanced\_analyzer.py: corners and braking zones\<close>


text \<open>Values stored in the result dicts; \<open>PNaN\<close> is the float NaN that pandas returns for
  an aggregate over nothing, \<open>PNone\<close> is Python's \<open>None\<close>.\<close>

datatype py_val = PInt int | PFloat real | PStr string | PNaN | PNone















subsection \<open>The two-state machine of the specification\<close>









section \<open>advanced\_analyzer.py and main.py: lap statistics\<close>

text \<open>One row of the laps frame. \<open>LapTime\<close> is the lap time in seconds, \<open>None\<close> for a
  missing value (NaT); \<open>Compound\<close> is \<open>None\<close> when missing.\<close>

record lap =
  Driver :: string
  LapNumber :: int
  LapTime :: "real option"
  Compound :: "string option"

text \<open>\<open>Series.unique()\<close>: the distinct values in order of first appearance.\<close>

definition py_unique :: "'a list \<Rightarrow> 'a list" where
  "py_unique xs = rev (remdups (rev xs))"



subsection \<open>The pandas and numpy aggregates\<close>

text \<open>\<open>Series.quantile(q)\<close> with the default linear interpolation, for a series without
  missing values: at position \<open>h = (n - 1) q\<close> of the sorted values, between the values
  at \<open>\<lfloor>h\<rfloor>\<close> and the next one; NaN on an empty series.\<close>

definition series_quantile :: "real list \<Rightarrow> real \<Rightarrow> py_val" where
  "series_quantile xs q =
     (if xs = [] then PNaN
      else let s = sort xs;
               h = (real (length xs) - 1) * q;
               lo = nat \<lfloor>h\<rfloor>;
               hi = min (lo + 1) (length xs - 1)
           in PFloat (s ! lo + (h - real lo) * (s ! hi - s ! lo)))"

text \<open>\<open>Series.mean()\<close>, \<open>Series.std()\<close> (sample standard deviation, \<open>ddof = 1\<close>) and
  \<open>Series.median()\<close>; NaN where pandas gives NaN.\<close>

definition mean :: "real list \<Rightarrow> real" where
  "mean xs = sum_list xs / real (length xs)"




subsection \<open>generate\_race\_pace\_analysis\<close>


text \<open>The rows kept by the mask
  \<open>(lap_times >= Q1 - 1.5 * IQR) & (lap_times <= Q3 + 1.5 * IQR)\<close>; a comparison with NaN
  is false.\<close>

definition clean_times :: "real list \<Rightarrow> real list" where
  "clean_times lap_times =
     (case (series_quantile lap_times (1 / 4), series_quantile lap_times (3 / 4)) of
        (PFloat Q1, PFloat Q3) \<Rightarrow>
          (let IQR = Q3 - Q1
           in filter (\<lambda>t. t \<ge> Q1 - 1.5 * IQR \<and> t \<le> Q3 + 1.5 * IQR) lap_times)
      | _ \<Rightarrow> [])"



subsection \<open>analyze\_pit\_stop\_performance\<close>





subsection \<open>\_calculate\_degradation\<close>

text \<open>The slope \<open>np.polyfit(x, y, 1)[0]\<close> of the least-squares line. A NaN among the
  \<open>y\<close> makes the result NaN. When all \<open>x\<close> coincide (which distinct lap numbers
  exclude) the fit is rank deficient and numpy returns the solution of least norm.\<close>

definition polyfit_slope :: "(real \<times> real option) list \<Rightarrow> py_val" where
  "polyfit_slope pts =
     (if None \<in> set (map snd pts) then PNaN
      else let xs = map fst pts;
               ys = map (\<lambda>p. the (snd p)) pts;
               mx = mean xs;
               my = mean ys;
               sxx = sum_list (map (\<lambda>x. (x - mx)\<^sup>2) xs);
               sxy = sum_list (map (\<lambda>p. (fst p - mx) * (the (snd p) - my)) pts)
           in if sxx = 0 then (if mx = 0 then PNaN else PFloat (my / (2 * mx)))
              else PFloat (sxy / sxx))"

text \<open>\<open>np.mean\<close> of a non-empty list of floats: NaN as soon as one of them is NaN.\<close>

definition np_mean :: "py_val list \<Rightarrow> py_val" where
  "np_mean vs =
     (if list_all (\<lambda>v. case v of PFloat _ \<Rightarrow> True | _ \<Rightarrow> False) vs
      then PFloat (mean (map (\<lambda>v. case v of PFloat r \<Rightarrow> r | _ \<Rightarrow> 0) vs))
      else PNaN)"

text \<open>The rate of one driver: all rows of the driver in \<open>laps\<close>, sorted by lap number;
  no row is dropped for a missing lap time.\<close>

definition driver_degradation :: "lap list \<Rightarrow> string \<Rightarrow> py_val list" where
  "driver_degradation laps d =
     (let driver_laps = sort_key LapNumber (filter (\<lambda>l. Driver l = d) laps)
      in if length driver_laps \<ge> 3
         then [polyfit_slope (map (\<lambda>l. (real_of_int (LapNumber l), LapTime l)) driver_laps)]
         else [])"

definition calculate_degradation :: "lap list \<Rightarrow> py_val" where
  "calculate_degradation laps =
     (if length laps < 3 then PFloat 0
      else let degradation_rates =
                 concat (map (driver_degradation laps) (py_unique (map Driver laps)))
           in if degradation_rates = [] then PFloat 0 else np_mean degradation_rates)"

text \<open>\<open>analyze_tire_performance\<close> calls it on the rows of one compound.\<close>

definition average_degradation :: "lap list \<Rightarrow> string \<Rightarrow> py_val" where
  "average_degradation laps compound =
     calculate_degradation (filter (\<lambda>l. Compound l = Some compound) laps)"

section \<open>Sample inputs\<close>

text \<open>A snapshot with timestamp \<open>t\<close> (its tyre age and air temperature are \<open>t\<close> as
  well, so that snapshots differ in what they carry), a monitor that has just been started, and a
  running monitor whose histories hold the 100 timestamps \<open>0, \<dots>, 99\<close>.\<close>

definition sample_snapshot :: "nat \<Rightarrow> nat snapshot" where
  "sample_snapshot t =
     \<lparr>timestamp = t,
      drivers = [\<lparr>driver = ''HAM'', position = 1, last_lap_time = ''1:30.000'',
                  best_lap_time = ''1:29.500'', gap_to_leader = ''LEADER'', tire_age = t\<rparr>],
      weather = \<lparr>air_temperature = real t, track_temperature = 35, humidity = 60,
                  wind_speed = 5, rainfall = 0\<rparr>,
      track_status = ''GREEN''\<rparr>"

definition full_monitor :: "(nat, string) monitor" where
  "full_monitor =
     \<lparr>is_monitoring = True,
      session_data = Some \<lparr>session_info = ''Race'', start_time = 0,
                            timing_data = map (\<lambda>t. (t, drivers (sample_snapshot t))) [0..<100],
                            weather_data = map (\<lambda>t. (t, weather (sample_snapshot t))) [0..<100],
                            session_track_status = ''GREEN''\<rparr>,
      callbacks = [''recorder''], update_interval = 5\<rparr>"

definition full_session :: "nat session" where
  "full_session = \<lparr>session_info = ''Race'', start_time = 0,
                            timing_data = map (\<lambda>t. (t, drivers (sample_snapshot t))) [0..<100],
                            weather_data = map (\<lambda>t. (t, weather (sample_snapshot t))) [0..<100],
                            session_track_status = ''GREEN''\<rparr>"

definition started_monitor :: "(nat, string) monitor" where
  "started_monitor = start_monitoring_begin ''Race'' 0 init_monitor"




text \<open>One driver on MEDIUM for laps 1, 2 and 6 with HARD in between; four MEDIUM laps
  with the second lap time missing; four laps with rising and with falling lap times.\<close>

definition stint_laps :: "lap list" where
  "stint_laps =
     [\<lparr>Driver = ''VER'', LapNumber = 1, LapTime = Some 80, Compound = Some ''MEDIUM''\<rparr>,
      \<lparr>Driver = ''VER'', LapNumber = 2, LapTime = Some 81, Compound = Some ''MEDIUM''\<rparr>,
      \<lparr>Driver = ''VER'', LapNumber = 3, LapTime = Some 85, Compound = Some ''HARD''\<rparr>,
      \<lparr>Driver = ''VER'', LapNumber = 4, LapTime = Some 85, Compound = Some ''HARD''\<rparr>,
      \<lparr>Driver = ''VER'', LapNumber = 5, LapTime = Some 85, Compound = Some ''HARD''\<rparr>,
      \<lparr>Driver = ''VER'', LapNumber = 6, LapTime = Some 80, Compound = Some ''MEDIUM''\<rparr>]"

definition missing_laps :: "lap list" where
  "missing_laps =
     [\<lparr>Driver = ''VER'', LapNumber = 1, LapTime = Some 80, Compound = Some ''MEDIUM''\<rparr>,
      \<lparr>Driver = ''VER'', LapNumber = 2, LapTime = None, Compound = Some ''MEDIUM''\<rparr>,
      \<lparr>Driver = ''VER'', LapNumber = 3, LapTime = Some 82, Compound = Some ''MEDIUM''\<rparr>,
      \<lparr>Driver = ''VER'', LapNumber = 4, LapTime = Some 83, Compound = Some ''MEDIUM''\<rparr>]"

definition rising_laps :: "lap list" where
  "rising_laps =
     [\<lparr>Driver = ''VER'', LapNumber = 1, LapTime = Some 80, Compound = Some ''MEDIUM''\<rparr>,
      \<lparr>Driver = ''VER'', LapNumber = 2, LapTime = Some 81, Compound = Some ''MEDIUM''\<rparr>,
      \<lparr>Driver = ''VER'', LapNumber = 3, LapTime = Some 82, Compound = Some ''MEDIUM''\<rparr>,
      \<lparr>Driver = ''VER'', LapNumber = 4, LapTime = Some 83, Compound = Some ''MEDIUM''\<rparr>]"

definition falling_laps :: "lap list" where
  "falling_laps =
     [\<lparr>Driver = ''VER'', LapNumber = 1, LapTime = Some 83, Compound = Some ''MEDIUM''\<rparr>,
      \<lparr>Driver = ''VER'', LapNumber = 2, LapTime = Some 82, Compound = Some ''MEDIUM''\<rparr>,
      \<lparr>Driver = ''VER'', LapNumber = 3, LapTime = Some 81, Compound = Some ''MEDIUM''\<rparr>,
      \<lparr>Driver = ''VER'', LapNumber = 4, LapTime = Some 80, Compound = Some ''MEDIUM''\<rparr>]"

section \<open>The bounded live history\<close>

subsection \<open>Auxiliary facts\<close>

lemma py_min_nonempty: "xs \<noteq> [] \<Longrightarrow> py_min xs = Inr (Min (set xs))"
  by (cases xs) (simp_all add: Min.set_eq_fold[symmetric])

lemma py_max_nonempty: "xs \<noteq> [] \<Longrightarrow> py_max xs = Inr (Max (set xs))"
  by (cases xs) (simp_all add: Max.set_eq_fold[symmetric])

lemma update_keys_list:
  "map fst (AList.update k v al) = (if k \<in> set (map fst al) then map fst al else map fst al @ [k])"
  by (simp add: update_keys image_iff)

lemma process_live_data_keys:
  assumes sd: "session_data m = Some sd"
    and agree: "map fst (weather_data sd) = map fst (timing_data sd)"
  shows "\<exists>sd'. process_live_data d m = Inr (m\<lparr>session_data := Some sd'\<rparr>)
           \<and> map fst (timing_data sd') = keys_after_insert (timestamp d) (map fst (timing_data sd))
           \<and> map fst (weather_data sd') = map fst (timing_data sd')
           \<and> start_time sd' = start_time sd \<and> session_info sd' = session_info sd"
proof -
  let ?ts = "timestamp d"
  let ?td = "AList.update ?ts (drivers d) (timing_data sd)"
  let ?wd = "AList.update ?ts (weather d) (weather_data sd)"
  have kw: "map fst ?wd = map fst ?td"
    using agree by (simp add: update_keys_list)
  have ne: "map fst ?td \<noteq> []" by simp
  have mn: "py_min (map fst ?td) = Inr (Min (set (map fst ?td)))"
    by (rule py_min_nonempty[OF ne])
  have min_in: "Min (set (map fst ?td)) \<in> set (map fst ?td)"
    using ne by (intro Min_in) auto
  show ?thesis
  proof (cases "length ?td > 100")
    case True
    have min_in_w: "Min (set (map fst ?td)) \<in> set (map fst ?wd)"
      using min_in kw by simp
    let ?k = "Min (set (map fst ?td))"
    let ?sd2 = "sd\<lparr>timing_data := AList.delete ?k ?td, weather_data := AList.delete ?k ?wd,
                   session_track_status := track_status d\<rparr>"
    have res: "process_live_data d m = Inr (m\<lparr>session_data := Some ?sd2\<rparr>)"
      using True sd mn min_in min_in_w
      by (simp add: process_live_data_def Let_def py_del_def)
    have k1: "map fst (timing_data ?sd2) = keys_after_insert ?ts (map fst (timing_data sd))"
    proof -
      define ks1 where "ks1 = map fst ?td"
      have a: "keys_after_insert ?ts (map fst (timing_data sd)) =
                 (if length ks1 > 100 then removeAll (Min (set ks1)) ks1 else ks1)"
        by (simp only: keys_after_insert_def Let_def ks1_def update_keys_list)
      have b: "length ks1 > 100" using True by (simp add: ks1_def)
      have c: "map fst (timing_data ?sd2) = removeAll (Min (set ks1)) ks1"
        by (simp add: delete_keys ks1_def)
      show ?thesis using a b c by simp
    qed
    have k2: "map fst (weather_data ?sd2) = map fst (timing_data ?sd2)"
      using kw by (simp add: delete_keys)
    show ?thesis
      using res k1 k2 by (intro exI[of _ ?sd2]) simp
  next
    case False
    let ?sd1 = "sd\<lparr>timing_data := ?td, weather_data := ?wd,
                   session_track_status := track_status d\<rparr>"
    have res: "process_live_data d m = Inr (m\<lparr>session_data := Some ?sd1\<rparr>)"
      using False sd by (simp add: process_live_data_def Let_def)
    have k1: "map fst (timing_data ?sd1) = keys_after_insert ?ts (map fst (timing_data sd))"
    proof -
      define ks1 where "ks1 = map fst ?td"
      have a: "keys_after_insert ?ts (map fst (timing_data sd)) =
                 (if length ks1 > 100 then removeAll (Min (set ks1)) ks1 else ks1)"
        by (simp only: keys_after_insert_def Let_def ks1_def update_keys_list)
      have b: "\<not> length ks1 > 100" using False by (simp add: ks1_def)
      have c: "map fst (timing_data ?sd1) = ks1"
        by (simp add: ks1_def)
      show ?thesis using a b c by simp
    qed
    have k2: "map fst (weather_data ?sd1) = map fst (timing_data ?sd1)"
      using kw by simp
    show ?thesis
      using res k1 k2 by (intro exI[of _ ?sd1]) simp
  qed
qed

lemma keys_after_insert_length:
  "length ks \<le> 100 \<Longrightarrow> length (keys_after_insert ts ks) \<le> 100"
proof -
  assume le: "length ks \<le> 100"
  define ks1 where "ks1 = (if ts \<in> set ks then ks else ks @ [ts])"
  have l1: "length ks1 \<le> 101" using le by (simp add: ks1_def)
  have ne: "ks1 \<noteq> []" by (auto simp: ks1_def)
  have "Min (set ks1) \<in> set ks1" using ne by (intro Min_in) auto
  then have "length (removeAll (Min (set ks1)) ks1) < length ks1"
    by (rule length_removeAll_less)
  then show ?thesis
    using l1 by (simp add: keys_after_insert_def Let_def ks1_def[symmetric])
qed

lemma keys_after_insert_distinct:
  "distinct ks \<Longrightarrow> distinct (keys_after_insert ts ks)"
  by (simp add: keys_after_insert_def Let_def distinct_removeAll)

lemma length_removeAll_distinct:
  "distinct xs \<Longrightarrow> x \<in> set xs \<Longrightarrow> length (removeAll x xs) = length xs - 1"
  using distinct_remove1_removeAll[of xs x] length_remove1[of x xs] by simp

lemma keys_after_insert_evict:
  assumes d: "distinct ks" and full: "length ks = 100" and fresh: "ts \<notin> set ks"
  shows "set (keys_after_insert ts ks) = insert ts (set ks) - {Min (insert ts (set ks))}"
    and "length (keys_after_insert ts ks) = 100"
proof -
  have eq: "keys_after_insert ts ks = removeAll (Min (set (ks @ [ts]))) (ks @ [ts])"
    using full fresh by (simp add: keys_after_insert_def Let_def)
  show "set (keys_after_insert ts ks) = insert ts (set ks) - {Min (insert ts (set ks))}"
    unfolding eq by auto
  have din: "distinct (ks @ [ts])" using d fresh by simp
  have "Min (set (ks @ [ts])) \<in> set (ks @ [ts])" by (intro Min_in) auto
  then have "length (removeAll (Min (set (ks @ [ts]))) (ks @ [ts])) = length (ks @ [ts]) - 1"
    using din by (rule length_removeAll_distinct[rotated])
  then show "length (keys_after_insert ts ks) = 100"
    unfolding eq using full by simp
qed

lemma keys_after_insert_increasing:
  assumes s: "sorted_wrt (<) (ks @ [ts])" and le: "length ks \<le> 100"
  shows "keys_after_insert ts ks = (if length ks = 100 then tl ks @ [ts] else ks @ [ts])"
proof -
  have fresh: "ts \<notin> set ks" using s by (auto simp: sorted_wrt_append)
  show ?thesis
  proof (cases "length ks = 100")
    case True
    then obtain k ks' where ks: "ks = k # ks'" by (cases ks) auto
    have lt: "\<forall>x \<in> set (ks' @ [ts]). k < x" using s by (simp add: ks)
    have mn: "Min (set (ks @ [ts])) = k"
      by (rule Min_eqI) (use lt in \<open>auto simp: ks intro: less_imp_le\<close>)
    have "k \<notin> set (ks' @ [ts])" using lt by auto
    then have "removeAll k (ks @ [ts]) = ks' @ [ts]"
      by (simp add: ks)
    then show ?thesis
      using True fresh mn by (simp add: keys_after_insert_def Let_def ks)
  next
    case False
    then show ?thesis using fresh le by (simp add: keys_after_insert_def Let_def)
  qed
qed

lemma fold_keys_increasing:
  "sorted_wrt (<) tss \<Longrightarrow> fold keys_after_insert tss [] = drop (length tss - 100) tss"
proof (induction tss rule: rev_induct)
  case Nil
  then show ?case by simp
next
  case (snoc t tss)
  have s0: "sorted_wrt (<) tss" using snoc.prems by (simp add: sorted_wrt_append)
  let ?ks = "drop (length tss - 100) tss"
  have ih: "fold keys_after_insert tss [] = ?ks" using snoc.IH s0 by simp
  have s1: "sorted_wrt (<) (?ks @ [t])"
    using snoc.prems by (auto simp: sorted_wrt_append sorted_wrt_drop dest: in_set_dropD)
  have le: "length ?ks \<le> 100" by simp
  have "fold keys_after_insert (tss @ [t]) [] = keys_after_insert t ?ks"
    using ih by simp
  also have "\<dots> = (if length ?ks = 100 then tl ?ks @ [t] else ?ks @ [t])"
    by (rule keys_after_insert_increasing[OF s1 le])
  also have "\<dots> = drop (length (tss @ [t]) - 100) (tss @ [t])"
  proof (cases "100 \<le> length tss")
    case True
    have a: "length ?ks = 100" using True by simp
    have b: "tl ?ks = drop (Suc (length tss - 100)) tss"
      by (simp add: drop_Suc tl_drop)
    have c: "length (tss @ [t]) - 100 = Suc (length tss - 100)" using True by simp
    have d: "Suc (length tss - 100) \<le> length tss" using True by simp
    show ?thesis unfolding c using a b d by simp
  next
    case False
    then show ?thesis by simp
  qed
  finally show ?case .
qed

lemma process_all_keys:
  assumes "session_data m = Some sd"
    and "map fst (weather_data sd) = map fst (timing_data sd)"
  shows "\<exists>sd'. process_all ds m = Inr (m\<lparr>session_data := Some sd'\<rparr>)
           \<and> map fst (timing_data sd') = fold keys_after_insert (map timestamp ds) (map fst (timing_data sd))
           \<and> map fst (weather_data sd') = map fst (timing_data sd')
           \<and> start_time sd' = start_time sd \<and> session_info sd' = session_info sd"
  using assms
proof (induction ds arbitrary: m sd)
  case Nil
  then show ?case by (intro exI[of _ sd]) simp
next
  case (Cons d ds)
  from process_live_data_keys[OF Cons.prems, of d]
  obtain sd1 where r1: "process_live_data d m = Inr (m\<lparr>session_data := Some sd1\<rparr>)"
    and k1: "map fst (timing_data sd1) = keys_after_insert (timestamp d) (map fst (timing_data sd))"
    and w1: "map fst (weather_data sd1) = map fst (timing_data sd1)"
    and o1: "start_time sd1 = start_time sd" "session_info sd1 = session_info sd"
    by blast
  let ?m1 = "m\<lparr>session_data := Some sd1\<rparr>"
  have s1: "session_data ?m1 = Some sd1" by simp
  from Cons.IH[OF s1 w1]
  obtain sd2 where r2: "process_all ds ?m1 = Inr (?m1\<lparr>session_data := Some sd2\<rparr>)"
    and k2: "map fst (timing_data sd2) = fold keys_after_insert (map timestamp ds) (map fst (timing_data sd1))"
    and w2: "map fst (weather_data sd2) = map fst (timing_data sd2)"
    and o2: "start_time sd2 = start_time sd1" "session_info sd2 = session_info sd1"
    by blast
  show ?case
    using r1 r2 k1 k2 w2 o1 o2 by (intro exI[of _ sd2]) simp
qed

lemma map_of_rows_keys:
  "set tss \<subseteq> set (map fst al) \<Longrightarrow>
   map fst (concat (map (\<lambda>ts. case map_of al ts of None \<Rightarrow> [] | Some w \<Rightarrow> [(ts, w)]) tss)) = tss"
proof (induction tss)
  case Nil
  then show ?case by simp
next
  case (Cons t tss)
  then have "t \<in> fst ` set al" by simp
  then have "map_of al t \<noteq> None"
    by (simp add: map_of_eq_None_iff)
  then obtain w where "map_of al t = Some w" by blast
  then show ?case using Cons by simp
qed

lemma set_py_last_n: "set (py_last_n n xs) \<subseteq> set xs"
  by (simp add: py_last_n_def set_drop_subset)

lemma driver_rows_subset: "set (map fst (driver_rows d td tss)) \<subseteq> set tss"
  by (induction tss) (auto simp: driver_rows_def split: option.splits)

lemma get_weather_history_timestamps:
  assumes "session_data m = Some sd"
  shows "\<exists>wh. get_weather_history n m = Inr wh
           \<and> wh_timestamps wh = py_last_n n (sort (map fst (weather_data sd)))"
proof -
  define tss where "tss = py_last_n n (sort (map fst (weather_data sd)))"
  define rows where "rows = concat (map (\<lambda>ts. case map_of (weather_data sd) ts of
                                          None \<Rightarrow> [] | Some w \<Rightarrow> [(ts, w)]) tss)"
  have "set tss \<subseteq> set (map fst (weather_data sd))"
    using set_py_last_n[of n "sort (map fst (weather_data sd))"] by (simp add: tss_def)
  from map_of_rows_keys[OF this]
  have k: "map fst rows = tss" by (simp add: rows_def)
  have "length (map fst rows) = length tss" by (simp only: k)
  then have l: "\<not> length rows < length tss" by simp
  have "get_weather_history n m =
          (if length rows < length tss then Inl KeyError
             else Inr \<lparr>wh_timestamps = map fst rows,
                       wh_air_temp = map (air_temperature \<circ> snd) rows,
                       wh_track_temp = map (track_temperature \<circ> snd) rows,
                       wh_humidity = map (humidity \<circ> snd) rows,
                       wh_wind_speed = map (wind_speed \<circ> snd) rows,
                       wh_rainfall = map (rainfall \<circ> snd) rows\<rparr>)"
    unfolding get_weather_history_def Let_def rows_def tss_def using assms by simp
  then show ?thesis using l k by (simp add: tss_def)
qed

lemma get_driver_history_timestamps:
  assumes "session_data m = Some sd"
  shows "\<exists>dh. get_driver_history d n m = Inr dh
           \<and> set (dh_timestamps dh) \<subseteq> set (py_last_n n (sort (map fst (timing_data sd))))"
  using assms driver_rows_subset[of d "timing_data sd" "py_last_n n (sort (map fst (timing_data sd)))"]
  by (simp add: get_driver_history_def Let_def)

lemma get_current_standings_ok:
  assumes "session_data m = Some sd"
  shows "\<exists>rows. get_current_standings m = Inr rows"
proof (cases "timing_data sd = []")
  case True
  then show ?thesis using assms by (simp add: get_current_standings_def)
next
  case False
  then have ne: "map fst (timing_data sd) \<noteq> []" by simp
  have "Max (set (map fst (timing_data sd))) \<in> set (map fst (timing_data sd))"
    using ne by (intro Max_in) auto
  then have "Max (set (map fst (timing_data sd))) \<in> fst ` set (timing_data sd)" by simp
  then have "map_of (timing_data sd) (Max (set (map fst (timing_data sd)))) \<noteq> None"
    by (simp only: map_of_eq_None_iff not_not)
  then obtain rows where "map_of (timing_data sd) (Max (set (map fst (timing_data sd)))) = Some rows"
    by blast
  then show ?thesis
    using assms False py_max_nonempty[OF ne]
    by (simp add: get_current_standings_def)
qed

lemma get_session_statistics_total:
  assumes "session_data m = Some sd" and "timing_data sd \<noteq> []"
  shows "\<exists>st. get_session_statistics now m = Inr (Some st)
           \<and> total_updates st = length (timing_data sd)"
proof -
  from get_current_standings_ok[OF assms(1)] obtain rows where
    "get_current_standings m = Inr rows" by blast
  then show ?thesis using assms by (simp add: get_session_statistics_def)
qed

lemma fold_keys_length:
  "length ks \<le> 100 \<Longrightarrow> length (fold keys_after_insert tss ks) \<le> 100"
  by (induction tss arbitrary: ks) (simp_all add: keys_after_insert_length)

lemma started_session:
  "session_data (start_monitoring_begin info now m) =
     Some \<lparr>session_info = info, start_time = now, timing_data = [], weather_data = [],
           session_track_status = ''GREEN''\<rparr>"
  by (simp add: start_monitoring_begin_def)

lemma process_all_started:
  "\<exists>sd'. process_all ds (start_monitoring_begin info now m)
            = Inr ((start_monitoring_begin info now m)\<lparr>session_data := Some sd'\<rparr>)
         \<and> map fst (timing_data sd') = fold keys_after_insert (map timestamp ds) []
         \<and> map fst (weather_data sd') = map fst (timing_data sd')
         \<and> start_time sd' = now"
proof -
  from process_all_keys[OF started_session, where ds = ds and info1 = info and now1 = now and m1 = m]
  obtain sd' where "process_all ds (start_monitoring_begin info now m)
            = Inr ((start_monitoring_begin info now m)\<lparr>session_data := Some sd'\<rparr>)"
    "map fst (timing_data sd') = fold keys_after_insert (map timestamp ds) []"
    "map fst (weather_data sd') = map fst (timing_data sd')"
    "start_time sd' = now"
    by auto
  then show ?thesis by blast
qed

lemma process_all_poll_all: "process_all ds m = poll_all (map Some ds) m"
  by (induction ds arbitrary: m) (simp_all add: poll_tick_def split: sum.splits)


lemma full_monitor_session: "session_data full_monitor = Some full_session"
  by (simp add: full_monitor_def full_session_def)

lemma map_fst_pairs: "map fst (map (\<lambda>t. (t, f t)) xs) = xs"
  by (induction xs) simp_all

lemma timestamps_sample: "map timestamp (map sample_snapshot xs) = xs"
  by (induction xs) (simp_all add: sample_snapshot_def)

lemma keys_after_insert_nonempty:
  assumes "distinct ks"
  shows "keys_after_insert ts ks \<noteq> []"
proof -
  define ks1 where "ks1 = (if ts \<in> set ks then ks else ks @ [ts])"
  have d: "distinct ks1" using assms by (simp add: ks1_def)
  have ne: "ks1 \<noteq> []" by (auto simp: ks1_def)
  have mi: "Min (set ks1) \<in> set ks1" using ne by (intro Min_in) auto
  have e: "keys_after_insert ts ks = (if length ks1 > 100 then removeAll (Min (set ks1)) ks1 else ks1)"
    by (simp add: keys_after_insert_def Let_def ks1_def)
  show ?thesis
  proof (cases "length ks1 > 100")
    case True
    have "length (removeAll (Min (set ks1)) ks1) = length ks1 - 1"
      using d mi by (rule length_removeAll_distinct)
    then have "length (removeAll (Min (set ks1)) ks1) \<noteq> 0" using True by simp
    then show ?thesis using True e by auto
  next
    case False
    then show ?thesis using e ne by simp
  qed
qed

lemma fold_keys_distinct:
  "distinct ks \<Longrightarrow> distinct (fold keys_after_insert tss ks)"
  by (induction tss arbitrary: ks) (simp_all add: keys_after_insert_distinct)

lemma fold_keys_nonempty:
  assumes "tss \<noteq> []" and "distinct ks"
  shows "fold keys_after_insert tss ks \<noteq> []"
proof -
  obtain tss' t where t: "tss = tss' @ [t]"
    using assms(1) by (cases tss rule: rev_cases) auto
  have "distinct (fold keys_after_insert tss' ks)"
    using assms(2) by (rule fold_keys_distinct)
  then show ?thesis
    unfolding t by (simp add: keys_after_insert_nonempty)
qed

lemma total_updates_after:
  fixes ini :: "('k::linorder, 'c) monitor"
  assumes "ds \<noteq> []"
  shows "\<exists>sd' st. process_all ds (start_monitoring_begin info now ini)
                = Inr ((start_monitoring_begin info now ini)\<lparr>session_data := Some sd'\<rparr>)
           \<and> get_session_statistics now' ((start_monitoring_begin info now ini)\<lparr>session_data := Some sd'\<rparr>)
                = Inr (Some st)
           \<and> total_updates st = length (timing_data sd')
           \<and> total_updates st \<le> 100
           \<and> (sorted_wrt (<) (map timestamp ds) \<longrightarrow> total_updates st = min (length ds) 100)"
proof -
  let ?m1 = "start_monitoring_begin info now ini"
  from process_all_started[of ds info now ini]
  obtain sd1 where r: "process_all ds ?m1 = Inr (?m1\<lparr>session_data := Some sd1\<rparr>)"
    and k: "map fst (timing_data sd1) = fold keys_after_insert (map timestamp ds) []"
    by blast
  have "map fst (timing_data sd1) \<noteq> []"
    unfolding k using assms by (intro fold_keys_nonempty) simp_all
  then have ne: "timing_data sd1 \<noteq> []" by auto
  have sd: "session_data (?m1\<lparr>session_data := Some sd1\<rparr>) = Some sd1" by simp
  from get_session_statistics_total[OF sd ne, of now']
  obtain st where st: "get_session_statistics now' (?m1\<lparr>session_data := Some sd1\<rparr>) = Inr (Some st)"
    and tu: "total_updates st = length (timing_data sd1)" by blast
  have "length (map fst (timing_data sd1)) \<le> 100"
    unfolding k by (rule fold_keys_length) simp
  then have le: "total_updates st \<le> 100" using tu by simp
  have inc: "total_updates st = min (length ds) 100" if "sorted_wrt (<) (map timestamp ds)"
  proof -
    have "length (map fst (timing_data sd1)) = length (drop (length ds - 100) (map timestamp ds))"
      using k fold_keys_increasing[OF that] by simp
    then show ?thesis using tu by auto
  qed
  show ?thesis using r st tu le inc by blast
qed

subsection \<open>The exact effect of an update\<close>

lemma update_fresh: "k \<notin> fst ` set al \<Longrightarrow> AList.update k v al = al @ [(k, v)]"
  by (induction al) auto

lemma delete_head_distinct:
  "distinct (map fst (p # al)) \<Longrightarrow> AList.delete (fst p) (p # al) = al"
  by (cases p) (force simp: AList.delete_eq filter_id_conv)

lemma process_live_data_exact:
  assumes sd: "session_data m = Some sd"
    and agree: "map fst (weather_data sd) = map fst (timing_data sd)"
  shows "process_live_data d m =
     Inr (m\<lparr>session_data := Some (sd\<lparr>
        timing_data :=
          (if length (AList.update (timestamp d) (drivers d) (timing_data sd)) > 100
           then AList.delete (Min (set (map fst (AList.update (timestamp d) (drivers d) (timing_data sd)))))
                  (AList.update (timestamp d) (drivers d) (timing_data sd))
           else AList.update (timestamp d) (drivers d) (timing_data sd)),
        weather_data :=
          (if length (AList.update (timestamp d) (drivers d) (timing_data sd)) > 100
           then AList.delete (Min (set (map fst (AList.update (timestamp d) (drivers d) (timing_data sd)))))
                  (AList.update (timestamp d) (weather d) (weather_data sd))
           else AList.update (timestamp d) (weather d) (weather_data sd)),
        session_track_status := track_status d\<rparr>)\<rparr>)"
proof -
  let ?ts = "timestamp d"
  let ?td = "AList.update ?ts (drivers d) (timing_data sd)"
  let ?wd = "AList.update ?ts (weather d) (weather_data sd)"
  have kw: "map fst ?wd = map fst ?td"
    using agree by (simp add: update_keys_list)
  have ne: "map fst ?td \<noteq> []" by simp
  have mn: "py_min (map fst ?td) = Inr (Min (set (map fst ?td)))"
    by (rule py_min_nonempty[OF ne])
  have min_in: "Min (set (map fst ?td)) \<in> set (map fst ?td)"
    using ne by (intro Min_in) auto
  have min_in_w: "Min (set (map fst ?td)) \<in> set (map fst ?wd)"
    using min_in kw by simp
  show ?thesis
  proof (cases "length ?td > 100")
    case True
    then show ?thesis
      using sd mn min_in min_in_w
      by (simp add: process_live_data_def Let_def py_del_def)
  next
    case False
    then show ?thesis
      using sd by (simp add: process_live_data_def Let_def)
  qed
qed


lemma drop_window_snoc:
  assumes "length F = n"
  shows "drop (Suc (length (drop (n - 100) F)) - 100) (drop (n - 100) F @ [x]) =
         drop (Suc n - 100) (F @ [x])"
proof (cases "100 \<le> n")
  case True
  then have l: "length (drop (n - 100) F) = 100" using assms by simp
  have a: "Suc n - 100 = Suc (n - 100)" using True by simp
  have b: "Suc (n - 100) \<le> length F" using True assms by simp
  have "drop (Suc 0) (drop (n - 100) F @ [x]) = drop (Suc 0) (drop (n - 100) F) @ [x]"
    using l by simp
  also have "\<dots> = drop (Suc (n - 100)) F @ [x]" by simp
  also have "\<dots> = drop (Suc (n - 100)) (F @ [x])" using b by simp
  finally show ?thesis using l a by simp
next
  case False
  then show ?thesis using assms by simp
qed

lemma process_live_data_increasing:
  assumes sd: "session_data m = Some sd"
    and agree: "map fst (weather_data sd) = map fst (timing_data sd)"
    and srt: "sorted_wrt (<) (map fst (timing_data sd) @ [timestamp d])"
    and le: "length (timing_data sd) \<le> 100"
  shows "process_live_data d m =
     Inr (m\<lparr>session_data := Some (sd\<lparr>
        timing_data := drop (Suc (length (timing_data sd)) - 100)
                         (timing_data sd @ [(timestamp d, drivers d)]),
        weather_data := drop (Suc (length (timing_data sd)) - 100)
                         (weather_data sd @ [(timestamp d, weather d)]),
        session_track_status := track_status d\<rparr>)\<rparr>)"
proof -
  let ?ts = "timestamp d"
  let ?td = "timing_data sd"
  let ?wd = "weather_data sd"
  have fresh: "?ts \<notin> fst ` set ?td" using srt by (auto simp: sorted_wrt_append)
  have freshw: "?ts \<notin> fst ` set ?wd"
  proof -
    have "fst ` set ?wd = set (map fst ?wd)" by simp
    also have "\<dots> = fst ` set ?td" using agree by simp
    finally show ?thesis using fresh by simp
  qed
  have ut: "AList.update ?ts (drivers d) ?td = ?td @ [(?ts, drivers d)]"
    by (rule update_fresh[OF fresh])
  have uw: "AList.update ?ts (weather d) ?wd = ?wd @ [(?ts, weather d)]"
    by (rule update_fresh[OF freshw])
  have lw: "length ?wd = length ?td"
    using agree by (metis length_map)
  note ex = process_live_data_exact[OF sd agree, of d, unfolded ut uw]
  show ?thesis
  proof (cases "length ?td = 100")
    case True
    then obtain p rest where td: "?td = p # rest" by (cases ?td) auto
    obtain q wrest where wd: "?wd = q # wrest" using lw True by (cases ?wd) auto
    have pq: "fst q = fst p" using agree td wd by simp
    have dist: "distinct (map fst (?td @ [(?ts, drivers d)]))"
      using srt strict_sorted_iff[of "map fst ?td @ [?ts]"] by simp
    have distw: "distinct (map fst (?wd @ [(?ts, weather d)]))"
      using dist agree by simp
    have lt: "\<forall>x \<in> set (map fst (rest @ [(?ts, drivers d)])). fst p < x"
      using srt td by auto
    have mn: "Min (set (map fst (?td @ [(?ts, drivers d)]))) = fst p"
      by (rule Min_eqI) (use lt td in \<open>auto intro: less_imp_le\<close>)
    have d1: "AList.delete (fst p) (?td @ [(?ts, drivers d)]) = rest @ [(?ts, drivers d)]"
      using delete_head_distinct[of p "rest @ [(?ts, drivers d)]"] dist td by simp
    have d2: "AList.delete (fst p) (?wd @ [(?ts, weather d)]) = wrest @ [(?ts, weather d)]"
      using delete_head_distinct[of q "wrest @ [(?ts, weather d)]"] distw wd pq by simp
    have len: "length (?td @ [(?ts, drivers d)]) > 100" using True by simp
    have e1: "drop (Suc (length ?td) - 100) (?td @ [(?ts, drivers d)]) = rest @ [(?ts, drivers d)]"
      using True td by simp
    have e2: "drop (Suc (length ?td) - 100) (?wd @ [(?ts, weather d)]) = wrest @ [(?ts, weather d)]"
      using True wd by simp
    show ?thesis
      unfolding ex e1 e2 using len mn d1 d2 by simp
  next
    case False
    then have "\<not> length (?td @ [(?ts, drivers d)]) > 100" using le by simp
    moreover have "Suc (length ?td) - 100 = 0" using False le by simp
    ultimately show ?thesis unfolding ex by simp
  qed
qed

lemma process_all_snoc:
  "process_all (ds @ [d]) m =
     (case process_all ds m of Inl e \<Rightarrow> Inl e | Inr m' \<Rightarrow> process_live_data d m')"
  by (induction ds arbitrary: m) (auto split: sum.splits)

lemma process_all_increasing:
  fixes ini :: "('k::linorder, 'c) monitor"
  assumes "sorted_wrt (<) (map timestamp ds)"
  shows "process_all ds (start_monitoring_begin info now ini) =
     Inr ((start_monitoring_begin info now ini)\<lparr>session_data := Some
        \<lparr>session_info = info, start_time = now,
         timing_data = retained drivers ds,
         weather_data = retained weather ds,
         session_track_status = (if ds = [] then ''GREEN'' else track_status (last ds))\<rparr>\<rparr>)"
  using assms
proof (induction ds rule: rev_induct)
  case Nil
  show ?case by (simp add: retained_def start_monitoring_begin_def)
next
  case (snoc d ds)
  let ?m0 = "start_monitoring_begin info now ini"
  let ?sd = "\<lparr>session_info = info, start_time = now,
         timing_data = retained drivers ds,
         weather_data = retained weather ds,
         session_track_status = (if ds = [] then ''GREEN'' else track_status (last ds))\<rparr>"
  let ?m1 = "?m0\<lparr>session_data := Some ?sd\<rparr>"
  have s0: "sorted_wrt (<) (map timestamp ds)"
    using snoc.prems by (simp add: sorted_wrt_append)
  have ih: "process_all ds ?m0 = Inr ?m1" using snoc.IH[OF s0] .
  have sd: "session_data ?m1 = Some ?sd" by simp
  have kt: "map fst (retained f ds) = drop (length ds - 100) (map timestamp ds)" for f :: "'k snapshot \<Rightarrow> 'v"
    by (simp add: retained_def drop_map comp_def)
  have agree: "map fst (weather_data ?sd) = map fst (timing_data ?sd)"
    by (simp add: kt)
  have srt: "sorted_wrt (<) (map fst (timing_data ?sd) @ [timestamp d])"
  proof -
    have a: "sorted_wrt (<) (drop (length ds - 100) (map timestamp ds))"
      using s0 by (rule sorted_wrt_drop)
    have "x < timestamp d" if "x \<in> set (drop (length ds - 100) (map timestamp ds))" for x
    proof -
      have "x \<in> set (map timestamp ds)" using that by (rule in_set_dropD)
      then show ?thesis using snoc.prems by (auto simp: sorted_wrt_append)
    qed
    then show ?thesis using a by (simp add: kt sorted_wrt_append)
  qed
  have le: "length (timing_data ?sd) \<le> 100" by (simp add: retained_def)
  have w: "drop (Suc (length (retained f ds)) - 100) (retained f ds @ [(timestamp d, f d)]) =
           retained f (ds @ [d])" for f :: "'k snapshot \<Rightarrow> 'v"
    using drop_window_snoc[of "map (\<lambda>d. (timestamp d, f d)) ds" "length ds" "(timestamp d, f d)"]
    by (simp add: retained_def)
  have lr: "length (retained weather ds) = length (retained drivers ds)"
    by (simp add: retained_def)
  have step: "process_live_data d ?m1 =
     Inr (?m1\<lparr>session_data := Some (?sd\<lparr>
        timing_data := retained drivers (ds @ [d]),
        weather_data := retained weather (ds @ [d]),
        session_track_status := track_status d\<rparr>)\<rparr>)"
    using process_live_data_increasing[OF sd agree srt le] w[of drivers] w[of weather] lr
    by simp
  show ?case
    unfolding process_all_snoc ih using step by simp
qed

lemma retained_keys:
  "map fst (retained f ds) = drop (length ds - 100) (map timestamp ds)"
  by (simp add: retained_def drop_map comp_def)

lemma retained_last:
  assumes "ds \<noteq> []"
  shows "retained f ds \<noteq> []" and "last (retained f ds) = (timestamp (last ds), f (last ds))"
proof -
  have l: "length ds - 100 < length (map (\<lambda>d. (timestamp d, f d)) ds)" using assms by simp
  then show "retained f ds \<noteq> []" by (simp add: retained_def)
  show "last (retained f ds) = (timestamp (last ds), f (last ds))"
    unfolding retained_def using l assms by (simp add: last_drop last_map)
qed

lemma retained_drop: "retained f (drop (length ds - 100) ds) = retained f ds"
  by (simp add: retained_def drop_map)

lemma standings_increasing:
  fixes m :: "('k::linorder, 'c) monitor"
  assumes sd: "session_data m = Some sd"
    and td: "timing_data sd = retained drivers ds"
    and srt: "sorted_wrt (<) (map timestamp ds)"
    and ne: "ds \<noteq> []"
  shows "get_current_standings m = Inr (drivers (last ds))"
proof -
  let ?td = "retained drivers ds"
  let ?ks = "map fst ?td"
  have ks: "?ks = drop (length ds - 100) (map timestamp ds)" by (rule retained_keys)
  have sk: "sorted_wrt (<) ?ks" unfolding ks using srt by (rule sorted_wrt_drop)
  have tne: "?td \<noteq> []" by (rule retained_last(1)[OF ne])
  have lst: "last ?td = (timestamp (last ds), drivers (last ds))" by (rule retained_last(2)[OF ne])
  have mem: "(timestamp (last ds), drivers (last ds)) \<in> set ?td"
    using last_in_set[OF tne] lst by simp
  have dist: "distinct ?ks" using sk strict_sorted_iff[of ?ks] by simp
  have mo: "map_of ?td (timestamp (last ds)) = Some (drivers (last ds))"
    using dist mem by (rule map_of_is_SomeI)
  have kne: "?ks \<noteq> []" using tne by simp
  have "last ?ks = timestamp (last ds)" using tne lst by (simp add: last_map)
  moreover have "Max (set ?ks) = last ?ks"
  proof (rule Max_eqI)
    show "finite (set ?ks)" by simp
    show "last ?ks \<in> set ?ks" using kne by (rule last_in_set)
    fix y assume "y \<in> set ?ks"
    then obtain i where i: "i < length ?ks" "?ks ! i = y" by (auto simp: in_set_conv_nth)
    have "sorted ?ks" using sk strict_sorted_iff[of ?ks] by simp
    then have "?ks ! i \<le> ?ks ! (length ?ks - 1)"
      using i kne by (intro sorted_nth_mono) auto
    then show "y \<le> last ?ks" using i kne by (simp add: last_conv_nth)
  qed
  ultimately have mx: "Max (set ?ks) = timestamp (last ds)" by simp
  show ?thesis
    using sd td tne mo mx py_max_nonempty[OF kne]
    by (simp add: get_current_standings_def)
qed

lemma process_live_data_at_capacity:
  fixes m :: "('k::linorder, 'c) monitor"
  assumes h1: "session_data m = Some sd"
    and h2: "map fst (weather_data sd) = map fst (timing_data sd)"
    and h4: "length (timing_data sd) = 100"
    and h5: "timestamp d \<notin> set (map fst (timing_data sd))"
  shows "process_live_data d m =
     Inr (m\<lparr>session_data := Some (sd\<lparr>
        timing_data := AList.delete (Min (insert (timestamp d) (set (map fst (timing_data sd)))))
                         (timing_data sd @ [(timestamp d, drivers d)]),
        weather_data := AList.delete (Min (insert (timestamp d) (set (map fst (timing_data sd)))))
                         (weather_data sd @ [(timestamp d, weather d)]),
        session_track_status := track_status d\<rparr>)\<rparr>)"
proof -
  let ?ts = "timestamp d"
  have fresh: "?ts \<notin> fst ` set (timing_data sd)" using h5 by simp
  have "fst ` set (weather_data sd) = set (map fst (weather_data sd))" by simp
  then have freshw: "?ts \<notin> fst ` set (weather_data sd)" using h2 h5 by simp
  have ut: "AList.update ?ts (drivers d) (timing_data sd) = timing_data sd @ [(?ts, drivers d)]"
    by (rule update_fresh[OF fresh])
  have uw: "AList.update ?ts (weather d) (weather_data sd) = weather_data sd @ [(?ts, weather d)]"
    by (rule update_fresh[OF freshw])
  have len: "length (timing_data sd @ [(?ts, drivers d)]) > 100" using h4 by simp
  have st: "set (map fst (timing_data sd @ [(?ts, drivers d)])) = insert ?ts (set (map fst (timing_data sd)))"
    by auto
  show ?thesis
    using process_live_data_exact[OF h1 h2, of d, unfolded ut uw] len
    by (simp only: st if_True)
qed


lemma delete_first_pairs:
  "distinct (a # xs) \<Longrightarrow>
   AList.delete a (map (\<lambda>t. (t, g t)) (a # xs)) = map (\<lambda>t. (t, g t)) xs"
  using delete_head_distinct[of "(a, g a)" "map (\<lambda>t. (t, g t)) xs"]
  by (simp add: comp_def)

lemma full_window_shift:
  "AList.delete 0 (map (\<lambda>t. (t, g t)) [0..<100] @ [(100, g 100)]) = map (\<lambda>t. (t, g t)) [1..<101]"
proof -
  have a: "[0..<101] = 0 # [1..<101]" by (simp add: upt_conv_Cons del: upt_Suc)
  have b: "map (\<lambda>t. (t, g t)) [0..<100] @ [(100, g 100)] = map (\<lambda>t. (t, g t)) [0..<101]"
  proof -
    have "[0..<101] = [0..<100] @ [100]" using upt_Suc_append[of 0 100] by simp
    then show ?thesis by (simp only: map_append list.map)
  qed
  have d: "distinct (0 # [1..<101])" unfolding a[symmetric] by (rule distinct_upt)
  show ?thesis unfolding b a by (rule delete_first_pairs[OF d])
qed

lemma Min_full_window: "Min (insert 100 (set [0..<100])) = (0::nat)"
  by (rule Min_eqI) (auto simp del: upt_Suc)

lemma sample_window:
  "drop 5 (map (\<lambda>d. (timestamp d, f d)) (map sample_snapshot [0..<105]))
     = map (\<lambda>t. (t, f (sample_snapshot t))) [5..<105]"
proof -
  have "drop 5 [0..<105] = [5..<105]" by (simp only: drop_upt) simp
  then have "drop 5 (map (\<lambda>d. (timestamp d, f d)) (map sample_snapshot [0..<105]))
     = map (\<lambda>d. (timestamp d, f d)) (map sample_snapshot [5..<105])"
    by (simp only: drop_map)
  also have "\<dots> = map (\<lambda>t. (t, f (sample_snapshot t))) [5..<105]"
    by (simp only: map_map) (simp add: comp_def sample_snapshot_def del: upt_Suc)
  finally show ?thesis .
qed


lemma statistics_empty_history:
  "get_session_statistics now' (start_monitoring_begin info now ini) = Inr None"
  by (simp add: get_session_statistics_def start_monitoring_begin_def)









subsection \<open>Claims about the live monitor\<close>

text \<open>
  C1 (bounded history and eviction). Three facts about the history cap of 100.
  First, whatever snapshots a freshly started monitor processes, every one is processed
  without an exception and the timing history then holds at most 100 entries.
  Second, when the history holds exactly 100 distinct timestamps and a snapshot with a
  new timestamp arrives, the new state is the old one with the snapshot's drivers and
  weather appended under its timestamp and the single entry with the smallest timestamp
  deleted from both histories; every other stored entry is kept as it was, and the
  history holds 100 entries afterwards.
  Third, after any number of snapshots with strictly increasing timestamps (105 in
  particular) both histories hold exactly the last 100 snapshots' payloads under their
  timestamps, in order; the state is the one reached when the older snapshots are never
  delivered at all, so that no query can tell them apart; the current standings are
  those of the last snapshot, and the timestamps returned by the weather and driver
  history queries are among the last 100.
\<close>

theorem bounded_history_eviction:
  fixes m ini :: "('k::linorder, 'c) monitor"
  shows
    "(\<exists>sd'. process_all ds (start_monitoring_begin info now ini)
              = Inr ((start_monitoring_begin info now ini)\<lparr>session_data := Some sd'\<rparr>)
           \<and> length (timing_data sd') \<le> 100)
     \<and> (session_data m = Some sd \<and> map fst (weather_data sd) = map fst (timing_data sd)
          \<and> distinct (map fst (timing_data sd)) \<and> length (timing_data sd) = 100
          \<and> timestamp d \<notin> set (map fst (timing_data sd))
        \<longrightarrow> (\<exists>sd'. process_live_data d m = Inr (m\<lparr>session_data := Some sd'\<rparr>)
               \<and> sd' = sd\<lparr>
                    timing_data :=
                      AList.delete (Min (insert (timestamp d) (set (map fst (timing_data sd)))))
                        (timing_data sd @ [(timestamp d, drivers d)]),
                    weather_data :=
                      AList.delete (Min (insert (timestamp d) (set (map fst (timing_data sd)))))
                        (weather_data sd @ [(timestamp d, weather d)]),
                    session_track_status := track_status d\<rparr>
               \<and> length (timing_data sd') = 100
               \<and> set (map fst (timing_data sd'))
                   = insert (timestamp d) (set (map fst (timing_data sd)))
                       - {Min (insert (timestamp d) (set (map fst (timing_data sd))))}))
     \<and> (sorted_wrt (<) (map timestamp ds)
        \<longrightarrow> (\<exists>sd'. process_all ds (start_monitoring_begin info now ini)
                     = Inr ((start_monitoring_begin info now ini)\<lparr>session_data := Some sd'\<rparr>)
               \<and> sd' = \<lparr>session_info = info, start_time = now,
                         timing_data = drop (length ds - 100) (map (\<lambda>d. (timestamp d, drivers d)) ds),
                         weather_data = drop (length ds - 100) (map (\<lambda>d. (timestamp d, weather d)) ds),
                         session_track_status = (if ds = [] then ''GREEN'' else track_status (last ds))\<rparr>
               \<and> process_all (drop (length ds - 100) ds) (start_monitoring_begin info now ini)
                     = process_all ds (start_monitoring_begin info now ini)
               \<and> map fst (timing_data sd') = drop (length ds - 100) (map timestamp ds)
               \<and> map fst (weather_data sd') = drop (length ds - 100) (map timestamp ds)
               \<and> (ds \<noteq> [] \<longrightarrow>
                    get_current_standings ((start_monitoring_begin info now ini)\<lparr>session_data := Some sd'\<rparr>)
                      = Inr (drivers (last ds)))
               \<and> (\<forall>n. \<exists>wh. get_weather_history n ((start_monitoring_begin info now ini)\<lparr>session_data := Some sd'\<rparr>) = Inr wh
                          \<and> set (wh_timestamps wh) \<subseteq> set (drop (length ds - 100) (map timestamp ds)))
               \<and> (\<forall>drv n. \<exists>dh. get_driver_history drv n ((start_monitoring_begin info now ini)\<lparr>session_data := Some sd'\<rparr>) = Inr dh
                          \<and> set (dh_timestamps dh) \<subseteq> set (drop (length ds - 100) (map timestamp ds)))))"
proof (intro conjI impI)
  let ?m1 = "start_monitoring_begin info now ini"
  from process_all_started[of ds info now ini]
  obtain sd1 where r: "process_all ds ?m1 = Inr (?m1\<lparr>session_data := Some sd1\<rparr>)"
    and k: "map fst (timing_data sd1) = fold keys_after_insert (map timestamp ds) []"
    by blast
  have "length (map fst (timing_data sd1)) \<le> 100"
    unfolding k by (rule fold_keys_length) simp
  then show "\<exists>sd'. process_all ds ?m1 = Inr (?m1\<lparr>session_data := Some sd'\<rparr>)
           \<and> length (timing_data sd') \<le> 100"
    using r by auto
  {
    assume s: "sorted_wrt (<) (map timestamp ds)"
    let ?keep = "drop (length ds - 100) (map timestamp ds)"
    define sd2 where "sd2 = \<lparr>session_info = info, start_time = now,
                         timing_data = retained drivers ds,
                         weather_data = retained weather ds,
                         session_track_status = (if ds = [] then ''GREEN'' else track_status (last ds))\<rparr>"
    let ?m2 = "?m1\<lparr>session_data := Some sd2\<rparr>"
    have r2: "process_all ds ?m1 = Inr ?m2"
      unfolding sd2_def by (rule process_all_increasing[OF s])
    have e: "sd2 = \<lparr>session_info = info, start_time = now,
                         timing_data = drop (length ds - 100) (map (\<lambda>d. (timestamp d, drivers d)) ds),
                         weather_data = drop (length ds - 100) (map (\<lambda>d. (timestamp d, weather d)) ds),
                         session_track_status = (if ds = [] then ''GREEN'' else track_status (last ds))\<rparr>"
      by (simp add: sd2_def retained_def)
    have kt: "map fst (timing_data sd2) = ?keep" by (simp add: sd2_def retained_keys)
    have kw: "map fst (weather_data sd2) = ?keep" by (simp add: sd2_def retained_keys)
    have sd: "session_data ?m2 = Some sd2" by simp
    have s': "sorted_wrt (<) (map timestamp (drop (length ds - 100) ds))"
      using s by (simp add: drop_map[symmetric] sorted_wrt_drop)
    have lastd: "last (drop (length ds - 100) ds) = last ds" if "ds \<noteq> []"
      using that by (simp add: last_drop)
    have "process_all (drop (length ds - 100) ds) ?m1 = Inr ?m2"
    proof (cases "ds = []")
      case True
      then show ?thesis using r2 by simp
    next
      case False
      then have "0 < length ds" by simp
      then have "length ds - 100 < length ds" by arith
      then have ne: "drop (length ds - 100) ds \<noteq> []" by simp
      show ?thesis
        unfolding sd2_def using process_all_increasing[OF s', of info now ini] lastd[OF False] False ne
        by (simp only: retained_drop if_False)
    qed
    then have same: "process_all (drop (length ds - 100) ds) ?m1 = process_all ds ?m1"
      using r2 by simp
    have st: "ds \<noteq> [] \<longrightarrow> get_current_standings ?m2 = Inr (drivers (last ds))"
    proof
      assume ne: "ds \<noteq> []"
      have td: "timing_data sd2 = retained drivers ds" by (simp add: sd2_def)
      show "get_current_standings ?m2 = Inr (drivers (last ds))"
        by (rule standings_increasing[OF sd td s ne])
    qed
    have q1: "\<forall>n. \<exists>wh. get_weather_history n ?m2 = Inr wh \<and> set (wh_timestamps wh) \<subseteq> set ?keep"
    proof
      fix n
      show "\<exists>wh. get_weather_history n ?m2 = Inr wh \<and> set (wh_timestamps wh) \<subseteq> set ?keep"
        using get_weather_history_timestamps[OF sd, of n]
          set_py_last_n[of n "sort (map fst (weather_data sd2))"] kw by auto
    qed
    have q2: "\<forall>drv n. \<exists>dh. get_driver_history drv n ?m2 = Inr dh \<and> set (dh_timestamps dh) \<subseteq> set ?keep"
    proof (intro allI)
      fix drv n
      show "\<exists>dh. get_driver_history drv n ?m2 = Inr dh \<and> set (dh_timestamps dh) \<subseteq> set ?keep"
        using get_driver_history_timestamps[OF sd, of drv n]
          set_py_last_n[of n "sort (map fst (timing_data sd2))"] kt by auto
    qed
    show "\<exists>sd'. process_all ds ?m1 = Inr (?m1\<lparr>session_data := Some sd'\<rparr>)
               \<and> sd' = \<lparr>session_info = info, start_time = now,
                         timing_data = drop (length ds - 100) (map (\<lambda>d. (timestamp d, drivers d)) ds),
                         weather_data = drop (length ds - 100) (map (\<lambda>d. (timestamp d, weather d)) ds),
                         session_track_status = (if ds = [] then ''GREEN'' else track_status (last ds))\<rparr>
               \<and> process_all (drop (length ds - 100) ds) ?m1 = process_all ds ?m1
               \<and> map fst (timing_data sd') = ?keep
               \<and> map fst (weather_data sd') = ?keep
               \<and> (ds \<noteq> [] \<longrightarrow> get_current_standings (?m1\<lparr>session_data := Some sd'\<rparr>) = Inr (drivers (last ds)))
               \<and> (\<forall>n. \<exists>wh. get_weather_history n (?m1\<lparr>session_data := Some sd'\<rparr>) = Inr wh
                          \<and> set (wh_timestamps wh) \<subseteq> set ?keep)
               \<and> (\<forall>drv n. \<exists>dh. get_driver_history drv n (?m1\<lparr>session_data := Some sd'\<rparr>) = Inr dh
                          \<and> set (dh_timestamps dh) \<subseteq> set ?keep)"
      using r2 e same kt kw st q1 q2 by (intro exI[of _ sd2] conjI)
  }
next
  assume h: "session_data m = Some sd \<and> map fst (weather_data sd) = map fst (timing_data sd)
          \<and> distinct (map fst (timing_data sd)) \<and> length (timing_data sd) = 100
          \<and> timestamp d \<notin> set (map fst (timing_data sd))"
  then have h1: "session_data m = Some sd" and h2: "map fst (weather_data sd) = map fst (timing_data sd)"
    and h3: "distinct (map fst (timing_data sd))" and h4: "length (map fst (timing_data sd)) = 100"
    and h4': "length (timing_data sd) = 100"
    and h5: "timestamp d \<notin> set (map fst (timing_data sd))" by simp_all
  define sd1 where "sd1 = sd\<lparr>
                    timing_data :=
                      AList.delete (Min (insert (timestamp d) (set (map fst (timing_data sd)))))
                        (timing_data sd @ [(timestamp d, drivers d)]),
                    weather_data :=
                      AList.delete (Min (insert (timestamp d) (set (map fst (timing_data sd)))))
                        (weather_data sd @ [(timestamp d, weather d)]),
                    session_track_status := track_status d\<rparr>"
  have r: "process_live_data d m = Inr (m\<lparr>session_data := Some sd1\<rparr>)"
    unfolding sd1_def by (rule process_live_data_at_capacity[OF h1 h2 h4' h5])
  from process_live_data_keys[OF h1 h2, of d]
  obtain sd2 where r2: "process_live_data d m = Inr (m\<lparr>session_data := Some sd2\<rparr>)"
    and k2: "map fst (timing_data sd2) = keys_after_insert (timestamp d) (map fst (timing_data sd))"
    by blast
  from r r2 have "session_data (m\<lparr>session_data := Some sd1\<rparr>) = session_data (m\<lparr>session_data := Some sd2\<rparr>)"
    by simp
  then have "sd1 = sd2" by simp
  then have k: "map fst (timing_data sd1) = keys_after_insert (timestamp d) (map fst (timing_data sd))"
    using k2 by simp
  have a: "set (map fst (timing_data sd1)) = insert (timestamp d) (set (map fst (timing_data sd)))
                       - {Min (insert (timestamp d) (set (map fst (timing_data sd))))}"
    unfolding k by (rule keys_after_insert_evict(1)[OF h3 h4 h5])
  have "length (map fst (timing_data sd1)) = 100"
    unfolding k by (rule keys_after_insert_evict(2)[OF h3 h4 h5])
  then have b: "length (timing_data sd1) = 100" by simp
  show "\<exists>sd'. process_live_data d m = Inr (m\<lparr>session_data := Some sd'\<rparr>)
               \<and> sd' = sd\<lparr>
                    timing_data :=
                      AList.delete (Min (insert (timestamp d) (set (map fst (timing_data sd)))))
                        (timing_data sd @ [(timestamp d, drivers d)]),
                    weather_data :=
                      AList.delete (Min (insert (timestamp d) (set (map fst (timing_data sd)))))
                        (weather_data sd @ [(timestamp d, weather d)]),
                    session_track_status := track_status d\<rparr>
               \<and> length (timing_data sd') = 100
               \<and> set (map fst (timing_data sd'))
                   = insert (timestamp d) (set (map fst (timing_data sd)))
                       - {Min (insert (timestamp d) (set (map fst (timing_data sd))))}"
    using r a b sd1_def by (intro exI[of _ sd1] conjI)
qed

text \<open>C1 at a concrete input: the full monitor receives timestamp 100 and then holds the
  snapshots \<open>1, \<dots>, 100\<close>; a fresh monitor receives the 105 timestamps \<open>0, \<dots>, 104\<close>
  and then holds the snapshots \<open>5, \<dots>, 104\<close>, as if the first five had never been sent.\<close>

theorem bounded_history_eviction_witness:
  "session_data full_monitor = Some full_session
   \<and> map fst (weather_data full_session) = map fst (timing_data full_session)
   \<and> distinct (map fst (timing_data full_session)) \<and> length (timing_data full_session) = 100
   \<and> timestamp (sample_snapshot 100) \<notin> set (map fst (timing_data full_session))
   \<and> sorted_wrt (<) (map timestamp (map sample_snapshot [0..<105]))
   \<and> process_live_data (sample_snapshot 100) full_monitor
        = Inr (full_monitor\<lparr>session_data := Some (full_session\<lparr>
             timing_data := map (\<lambda>t. (t, drivers (sample_snapshot t))) [1..<101],
             weather_data := map (\<lambda>t. (t, weather (sample_snapshot t))) [1..<101],
             session_track_status := ''GREEN''\<rparr>)\<rparr>)
   \<and> process_all (map sample_snapshot [0..<105]) started_monitor
        = Inr (started_monitor\<lparr>session_data := Some
             \<lparr>session_info = ''Race'', start_time = 0,
              timing_data = map (\<lambda>t. (t, drivers (sample_snapshot t))) [5..<105],
              weather_data = map (\<lambda>t. (t, weather (sample_snapshot t))) [5..<105],
              session_track_status = ''GREEN''\<rparr>\<rparr>)
   \<and> process_all (map sample_snapshot [5..<105]) started_monitor
        = process_all (map sample_snapshot [0..<105]) started_monitor
   \<and> get_current_standings (started_monitor\<lparr>session_data := Some
             \<lparr>session_info = ''Race'', start_time = 0,
              timing_data = map (\<lambda>t. (t, drivers (sample_snapshot t))) [5..<105],
              weather_data = map (\<lambda>t. (t, weather (sample_snapshot t))) [5..<105],
              session_track_status = ''GREEN''\<rparr>\<rparr>)
        = Inr (drivers (sample_snapshot 104))"
proof -
  let ?ds = "map sample_snapshot [0..<105]"
  have kt: "map fst (timing_data full_session) = [0..<100]"
    by (simp add: full_session_def map_fst_pairs del: map_map)
  have kw: "map fst (weather_data full_session) = [0..<100]"
    by (simp add: full_session_def map_fst_pairs del: map_map)
  have tdf: "timing_data full_session = map (\<lambda>t. (t, drivers (sample_snapshot t))) [0..<100]"
    by (simp add: full_session_def)
  have wdf: "weather_data full_session = map (\<lambda>t. (t, weather (sample_snapshot t))) [0..<100]"
    by (simp add: full_session_def)
  have len: "length (timing_data full_session) = 100"
    by (simp add: full_session_def)
  have ts: "timestamp (sample_snapshot 100) = 100" by (simp add: sample_snapshot_def)
  have trk: "track_status (sample_snapshot 100) = ''GREEN''" by (simp add: sample_snapshot_def)
  have h: "session_data full_monitor = Some full_session
     \<and> map fst (weather_data full_session) = map fst (timing_data full_session)
     \<and> distinct (map fst (timing_data full_session)) \<and> length (timing_data full_session) = 100
     \<and> timestamp (sample_snapshot 100) \<notin> set (map fst (timing_data full_session))"
    using full_monitor_session len by (simp add: kt kw ts)
  have s: "sorted_wrt (<) (map timestamp ?ds)"
    by (simp only: timestamps_sample) simp
  note T = bounded_history_eviction[where ds = ?ds and info = "''Race''"
      and now = 0 and ini = "init_monitor :: (nat, string) monitor" and m = full_monitor
      and sd = full_session and d = "sample_snapshot 100", folded started_monitor_def]
  from T[THEN conjunct2, THEN conjunct1, THEN mp, OF h, unfolded kt ts Min_full_window]
  obtain sd1 where a1: "process_live_data (sample_snapshot 100) full_monitor
                = Inr (full_monitor\<lparr>session_data := Some sd1\<rparr>)"
    and a2: "sd1 = full_session\<lparr>
                    timing_data := AList.delete 0 (timing_data full_session @ [(100, drivers (sample_snapshot 100))]),
                    weather_data := AList.delete 0 (weather_data full_session @ [(100, weather (sample_snapshot 100))]),
                    session_track_status := track_status (sample_snapshot 100)\<rparr>"
    by blast
  have a: "process_live_data (sample_snapshot 100) full_monitor
        = Inr (full_monitor\<lparr>session_data := Some (full_session\<lparr>
             timing_data := map (\<lambda>t. (t, drivers (sample_snapshot t))) [1..<101],
             weather_data := map (\<lambda>t. (t, weather (sample_snapshot t))) [1..<101],
             session_track_status := ''GREEN''\<rparr>)\<rparr>)"
    using a1 unfolding a2 tdf wdf trk
    by (simp only: full_window_shift[of "\<lambda>t. drivers (sample_snapshot t)"]
                   full_window_shift[of "\<lambda>t. weather (sample_snapshot t)"])
  have l5: "length ?ds - 100 = 5" by simp
  have ne: "?ds \<noteq> []" by simp
  have lst: "last ?ds = sample_snapshot 104" by (simp add: last_map del: upt_Suc)
  have trk2: "track_status (sample_snapshot 104) = ''GREEN''" by (simp add: sample_snapshot_def)
  have d5: "drop 5 ?ds = map sample_snapshot [5..<105]"
  proof -
    have "drop 5 [0..<105] = [5..<105]" by (simp only: drop_upt) simp
    then show ?thesis by (simp only: drop_map)
  qed
  from T[THEN conjunct2, THEN conjunct2, THEN mp, OF s]
  obtain sd2 where b1: "process_all ?ds started_monitor = Inr (started_monitor\<lparr>session_data := Some sd2\<rparr>)"
    and b2: "sd2 = \<lparr>session_info = ''Race'', start_time = 0,
                         timing_data = drop (length ?ds - 100) (map (\<lambda>d. (timestamp d, drivers d)) ?ds),
                         weather_data = drop (length ?ds - 100) (map (\<lambda>d. (timestamp d, weather d)) ?ds),
                         session_track_status = (if ?ds = [] then ''GREEN'' else track_status (last ?ds))\<rparr>"
    and b3: "process_all (drop (length ?ds - 100) ?ds) started_monitor = process_all ?ds started_monitor"
    and b4: "?ds \<noteq> [] \<longrightarrow> get_current_standings (started_monitor\<lparr>session_data := Some sd2\<rparr>) = Inr (drivers (last ?ds))"
    by blast
  have e: "sd2 = \<lparr>session_info = ''Race'', start_time = 0,
              timing_data = map (\<lambda>t. (t, drivers (sample_snapshot t))) [5..<105],
              weather_data = map (\<lambda>t. (t, weather (sample_snapshot t))) [5..<105],
              session_track_status = ''GREEN''\<rparr>"
    using b2 ne unfolding l5 lst trk2 by (simp only: sample_window if_False)
  have b: "process_all ?ds started_monitor
        = Inr (started_monitor\<lparr>session_data := Some
             \<lparr>session_info = ''Race'', start_time = 0,
              timing_data = map (\<lambda>t. (t, drivers (sample_snapshot t))) [5..<105],
              weather_data = map (\<lambda>t. (t, weather (sample_snapshot t))) [5..<105],
              session_track_status = ''GREEN''\<rparr>\<rparr>)"
    using b1 unfolding e .
  have c: "process_all (map sample_snapshot [5..<105]) started_monitor = process_all ?ds started_monitor"
    using b3 unfolding l5 d5 .
  have g: "get_current_standings (started_monitor\<lparr>session_data := Some
             \<lparr>session_info = ''Race'', start_time = 0,
              timing_data = map (\<lambda>t. (t, drivers (sample_snapshot t))) [5..<105],
              weather_data = map (\<lambda>t. (t, weather (sample_snapshot t))) [5..<105],
              session_track_status = ''GREEN''\<rparr>\<rparr>)
        = Inr (drivers (sample_snapshot 104))"
    using b4[THEN mp, OF ne] unfolding e lst .
  show ?thesis using h s a b c g by (intro conjI) (simp_all only: simp_thms)
qed

text \<open>
  C6 (amended). \<open>total_updates\<close> is the length of the timing history, not a count of the
  snapshots received. With an empty history (a monitor that has just been started) the
  statistics are the empty dict. After \<open>k \<ge> 1\<close> snapshots processed by a freshly started
  monitor the statistics exist, \<open>total_updates\<close> equals the history length and is at most
  100, and for strictly increasing timestamps it is \<open>min k 100\<close>.
\<close>

theorem total_updates_is_history_length:
  fixes ini :: "('k::linorder, 'c) monitor"
  shows "get_session_statistics now' (start_monitoring_begin info now ini) = Inr None
   \<and> (ds \<noteq> [] \<longrightarrow>
     (\<exists>sd' st. process_all ds (start_monitoring_begin info now ini)
                = Inr ((start_monitoring_begin info now ini)\<lparr>session_data := Some sd'\<rparr>)
           \<and> get_session_statistics now' ((start_monitoring_begin info now ini)\<lparr>session_data := Some sd'\<rparr>)
                = Inr (Some st)
           \<and> total_updates st = length (timing_data sd')
           \<and> total_updates st \<le> 100
           \<and> (sorted_wrt (<) (map timestamp ds) \<longrightarrow> total_updates st = min (length ds) 100)))"
  using total_updates_after[of ds info now ini now'] statistics_empty_history[of now' info now ini]
  by blast


text \<open>C6 (amended) at three snapshots with timestamps 0, 1, 2, and at the empty
  history.\<close>

theorem total_updates_is_history_length_witness:
  "map sample_snapshot [0..<3] \<noteq> [] \<and> sorted_wrt (<) (map timestamp (map sample_snapshot [0..<3]))
   \<and> get_session_statistics 9 started_monitor = Inr None
   \<and> (\<exists>sd' st. process_all (map sample_snapshot [0..<3]) started_monitor
                = Inr (started_monitor\<lparr>session_data := Some sd'\<rparr>)
           \<and> get_session_statistics 9 (started_monitor\<lparr>session_data := Some sd'\<rparr>) = Inr (Some st)
           \<and> total_updates st = length (timing_data sd')
           \<and> total_updates st = 3)"
proof -
  have a: "map sample_snapshot [0..<3] \<noteq> []" by simp
  have b: "sorted_wrt (<) (map timestamp (map sample_snapshot [0..<3]))"
    by (simp only: timestamps_sample) simp
  note T = total_updates_is_history_length[where ds = "map sample_snapshot [0..<3]" and info = "''Race''"
      and now = 0 and ini = "init_monitor :: (nat, string) monitor" and now' = 9,
      folded started_monitor_def]
  from T[THEN conjunct2, THEN mp, OF a]
  obtain sd' st where
    1: "process_all (map sample_snapshot [0..<3]) started_monitor
                = Inr (started_monitor\<lparr>session_data := Some sd'\<rparr>)"
    and 2: "get_session_statistics 9 (started_monitor\<lparr>session_data := Some sd'\<rparr>) = Inr (Some st)"
    and 3: "total_updates st = length (timing_data sd')"
    and 4: "sorted_wrt (<) (map timestamp (map sample_snapshot [0..<3]))
              \<longrightarrow> total_updates st = min (length (map sample_snapshot [0..<3])) 100"
    by blast
  from 4 b have 5: "total_updates st = 3" by simp
  show ?thesis using a b T[THEN conjunct1] 1 2 3 5 by blast
qed

text \<open>C6 as stated fails: after 101 snapshots with timestamps \<open>0, \<dots>, 100\<close> the
  reported \<open>total_updates\<close> is 100.\<close>

theorem total_updates_counterexample:
  "length (map sample_snapshot [0..<101]) = 101
   \<and> (case process_all (map sample_snapshot [0..<101]) started_monitor of
        Inl e \<Rightarrow> Inl e
      | Inr m' \<Rightarrow> map_sum id (map_option total_updates) (get_session_statistics 9 m')) = Inr (Some 100)"
proof -
  have a: "map sample_snapshot [0..<101] \<noteq> []" by simp
  have b: "sorted_wrt (<) (map timestamp (map sample_snapshot [0..<101]))"
    by (simp only: timestamps_sample) simp
  from total_updates_after[where ds = "map sample_snapshot [0..<101]" and info = "''Race''"
      and now = 0 and ini = "init_monitor :: (nat, string) monitor" and now' = 9,
      folded started_monitor_def, OF a]
  obtain sd' st where
    1: "process_all (map sample_snapshot [0..<101]) started_monitor
                = Inr (started_monitor\<lparr>session_data := Some sd'\<rparr>)"
    and 2: "get_session_statistics 9 (started_monitor\<lparr>session_data := Some sd'\<rparr>) = Inr (Some st)"
    and 4: "sorted_wrt (<) (map timestamp (map sample_snapshot [0..<101]))
              \<longrightarrow> total_updates st = min (length (map sample_snapshot [0..<101])) 100"
    by blast
  from 4 b have 5: "total_updates st = 100" by simp
  show ?thesis using 1 2 5 by simp
qed

text \<open>
  C7 (amended). \<open>start_monitoring\<close> does not look at the running flag: for every monitor,
  running or not, it sets the flag, replaces the session data by a fresh session (empty
  timing and weather histories, start time now, track status GREEN) and keeps the
  callbacks and the update interval.
\<close>

theorem start_monitoring_resets_session:
  "is_monitoring (start_monitoring_begin info now m)
   \<and> session_data (start_monitoring_begin info now m)
       = Some \<lparr>session_info = info, start_time = now, timing_data = [], weather_data = [],
               session_track_status = ''GREEN''\<rparr>
   \<and> callbacks (start_monitoring_begin info now m) = callbacks m
   \<and> update_interval (start_monitoring_begin info now m) = update_interval m"
  by (simp add: start_monitoring_begin_def)

text \<open>C7 as stated fails: started again, a running monitor with 100 retained snapshots
  and start time 0 has an empty history and start time 1.\<close>

theorem start_while_running_counterexample:
  "is_monitoring full_monitor
   \<and> map_option (length \<circ> timing_data) (session_data full_monitor) = Some 100
   \<and> map_option (length \<circ> timing_data) (session_data (start_monitoring_begin ''Race'' 1 full_monitor)) = Some 0
   \<and> map_option start_time (session_data full_monitor) = Some 0
   \<and> map_option start_time (session_data (start_monitoring_begin ''Race'' 1 full_monitor)) = Some 1"
  by (simp add: full_monitor_def start_monitoring_begin_def)



section \<open>Corner and braking-zone detection\<close>

subsection \<open>The loops run the two-state machine\<close>
















subsection \<open>Claims about the detectors\<close>







section \<open>Lap statistics\<close>

subsection \<open>Auxiliary facts\<close>











lemma clean_times_length: "length (clean_times xs) \<le> length xs"
  by (auto simp: clean_times_def Let_def split: py_val.splits)





















lemmas degradation_defs = average_degradation_def calculate_degradation_def driver_degradation_def
  polyfit_slope_def np_mean_def mean_def py_unique_def Let_def power2_eq_square

lemma rising_slope: "average_degradation rising_laps ''MEDIUM'' = PFloat 1"
  by (simp add: rising_laps_def degradation_defs)

lemma falling_slope: "average_degradation falling_laps ''MEDIUM'' = PFloat (- 1)"
  by (simp add: falling_laps_def degradation_defs)

subsection \<open>Claims about the lap statistics\<close>





text \<open>
  C5 at the input where the code departs from it. The driver runs MEDIUM on laps 1 and 2
  and again on lap 6, so no contiguous run on MEDIUM has three laps and the claim gives
  the rate 0.0; \<open>_calculate_degradation\<close> fits one line through the three laps and
  reports \<open>-1/14\<close>.
\<close>

theorem degradation_pools_separate_stints:
  "average_degradation stint_laps ''MEDIUM'' = PFloat (- 1 / 14)"
  by (simp add: stint_laps_def degradation_defs)

text \<open>
  C9 at the input where the code departs from it. With the lap time of lap 2 missing,
  \<open>_calculate_degradation\<close> passes the missing value to the fit and reports NaN; on the
  rows with a lap time it reports the slope 1.
\<close>

theorem degradation_keeps_missing_lap_time:
  "average_degradation missing_laps ''MEDIUM'' = PNaN
   \<and> average_degradation (filter (\<lambda>l. LapTime l \<noteq> None) missing_laps) ''MEDIUM'' = PFloat 1"
  by (simp add: missing_laps_def degradation_defs)


end
